theory Spec2Isabelle
  imports Complex_Main
begin

section \<open>Source-view selection of the image-based dataset\<close>

text \<open>
  A shallow embedding of \<^verbatim>\<open>ImageBasedDataset\<close>
  (\<^verbatim>\<open>easyvolcap/dataloaders/datasets/image_based_dataset.py\<close>) and of the bound
  handling of \<^verbatim>\<open>NoopDataset.get_viewer_batch\<close>.

  Conventions of the embedding.
  \<^item> Tensors are nested lists. The ranking tensors \<^verbatim>\<open>src_sims\<close> and \<^verbatim>\<open>src_inds\<close>
    have the axes (Target, Source, Latent) in the source; here they are stored as
    \<open>t \<mapsto> l \<mapsto> column along Source\<close>, so \<^verbatim>\<open>src_inds[t, a:b, l]\<close> is a slice of the
    list \<open>src_inds ! t ! l\<close>.
  \<^item> Floating-point numbers are idealised as reals. The one place where IEEE arithmetic
    differs visibly from the reals, \<^verbatim>\<open>1 / 0.0 = inf\<close>, is kept: similarities have
    the type \<open>sim\<close> with a value \<open>PosInf\<close>.
  \<^item> Exceptions are values: every function that can raise returns \<open>error + 'a\<close>.
  \<^item> The outcomes of the random generator are explicit arguments, and so is the order in
    which the library's sort leaves entries of equal value.
  \<^item> The camera matrices, \<^verbatim>\<open>affine_inverse\<close>, \<^verbatim>\<open>affine_padding\<close> and the base class
    \<^verbatim>\<open>VolumetricVideoDataset\<close> live in other modules; the camera centers they yield
    (\<^verbatim>\<open>c2w[..., :3, 3]\<close>) are taken as given.
\<close>

subsection \<open>Errors and Python slices\<close>

datatype error = AssertionError | IndexError | ValueError | RuntimeError | TypeError

text \<open>The position that a slice endpoint \<open>i\<close> denotes in a sequence of length \<open>n\<close>:
  negative endpoints count from the end, and everything is clamped to \<open>[0, n]\<close>.\<close>

definition slice_bound :: "nat \<Rightarrow> int \<Rightarrow> nat" where
  "slice_bound n i = (if i < 0 then nat (max (int n + i) 0) else min (nat i) n)"

text \<open>\<^verbatim>\<open>xs[a:b]\<close>\<close>

definition py_slice :: "int \<Rightarrow> int \<Rightarrow> 'a list \<Rightarrow> 'a list" where
  "py_slice a b xs =
     (let n = length xs; lo = slice_bound n a; hi = slice_bound n b
      in take (hi - lo) (drop lo xs))"

subsection \<open>Similarities\<close>

datatype sim = Finite real | PosInf

text \<open>\<^verbatim>\<open>1 / d\<close> for a norm \<open>d\<close>, which is never negative.\<close>

definition inv_dist :: "real \<Rightarrow> sim" where
  "inv_dist d = (if d = 0 then PosInf else Finite (1 / d))"

fun sim_less :: "sim \<Rightarrow> sim \<Rightarrow> bool" where
  "sim_less (Finite a) (Finite b) = (a < b)"
| "sim_less (Finite a) PosInf = True"
| "sim_less PosInf b = False"

definition sim_ge :: "sim \<Rightarrow> sim \<Rightarrow> bool" where
  "sim_ge a b = (\<not> sim_less a b)"

text \<open>\<^verbatim>\<open>(a - b).norm(dim=-1)\<close> on the last axis.\<close>

definition vsub :: "real list \<Rightarrow> real list \<Rightarrow> real list" where
  "vsub a b = map2 (-) a b"

definition vnorm :: "real list \<Rightarrow> real" where
  "vnorm v = sqrt (sum_list (map (\<lambda>x. x * x) v))"

subsection \<open>Sorting\<close>

text \<open>
  \<^verbatim>\<open>sims.sort(dim=1, descending=True)\<close> returns the sorted values and the positions they
  came from. The call does not pass \<^verbatim>\<open>stable=True\<close>, so the order in which entries of equal value
  come out is left to the library. That order is a parameter of the model: a \<open>sort_impl\<close>
  gives, for the values to sort, the arrangement of their positions from which the entries
  are put in descending order without moving equal values past each other. \<open>arrangement\<close>
  falls back to the order of the positions when the parameter does not return a permutation of
  them. Every arrangement that is in descending order is the outcome for some \<open>sort_impl\<close>
  (\<open>torch_sort_desc_sorted_arrangement\<close> below), so no outcome of an unstable sort is excluded;
  \<open>index_order\<close> is the stable sort.
\<close>

type_synonym sort_impl = "sim list \<Rightarrow> nat list"

definition index_order :: sort_impl where
  "index_order vals = [0..<length vals]"

definition arrangement :: "sort_impl \<Rightarrow> sim list \<Rightarrow> nat list" where
  "arrangement lib vals =
     (let p = lib vals
      in if length p = length vals \<and> distinct p \<and> list_all (\<lambda>i. i < length vals) p then p
         else [0..<length vals])"

fun insort_desc :: "sim \<times> nat \<Rightarrow> (sim \<times> nat) list \<Rightarrow> (sim \<times> nat) list" where
  "insort_desc x [] = [x]"
| "insort_desc x (y # ys) =
     (if sim_less (fst x) (fst y) then y # insort_desc x ys else x # y # ys)"

definition sort_desc :: "(sim \<times> nat) list \<Rightarrow> (sim \<times> nat) list" where
  "sort_desc ps = foldr insort_desc ps []"

definition torch_sort_desc :: "sort_impl \<Rightarrow> sim list \<Rightarrow> sim list \<times> nat list" where
  "torch_sort_desc lib vals =
     (let ps = sort_desc (map (\<lambda>i. (vals ! i, i)) (arrangement lib vals))
      in (map fst ps, map snd ps))"

text \<open>The order a stable sort establishes on (value, position) pairs: larger value first,
  and for equal values smaller position first.\<close>

definition rank_before :: "sim \<times> nat \<Rightarrow> sim \<times> nat \<Rightarrow> bool" where
  "rank_before a b = (sim_less (fst b) (fst a) \<or> (fst a = fst b \<and> snd a < snd b))"

subsection \<open>The ranking: \<^verbatim>\<open>load_source_indices\<close>\<close>

text \<open>
  \<open>centers_target ! t ! l\<close> and \<open>centers_source ! s ! l\<close> are the camera centers
  (\<^verbatim>\<open>tar_c2ws[..., :3, 3]\<close>, \<^verbatim>\<open>src_c2ws[..., :3, 3]\<close>), both of shape (N, L, 3).
  \<open>sims_column\<close> is \<^verbatim>\<open>sims[t, :, l]\<close>.
\<close>

definition sims_column :: "real list list list \<Rightarrow> real list list list \<Rightarrow> nat \<Rightarrow> nat \<Rightarrow> sim list" where
  "sims_column centers_target centers_source t l =
     map (\<lambda>s. inv_dist (vnorm (vsub (centers_source ! s ! l) (centers_target ! t ! l))))
       [0..<length centers_source]"

text \<open>The number of latents, and the check that the two tensors agree on it (the
  subtraction of tensors whose Latent axes differ raises).\<close>

definition n_latent :: "real list list list \<Rightarrow> real list list list \<Rightarrow> nat" where
  "n_latent centers_target centers_source =
     (case centers_target of r # _ \<Rightarrow> length r
      | [] \<Rightarrow> (case centers_source of r # _ \<Rightarrow> length r | [] \<Rightarrow> 0))"

definition shapes_agree :: "real list list list \<Rightarrow> real list list list \<Rightarrow> bool" where
  "shapes_agree centers_target centers_source =
     (let L = n_latent centers_target centers_source
      in list_all (\<lambda>r. length r = L) centers_target \<and> list_all (\<lambda>r. length r = L) centers_source)"

definition load_source_indices ::
  "sort_impl \<Rightarrow> real list list list \<Rightarrow> real list list list
     \<Rightarrow> error + (sim list list list \<times> nat list list list)" where
  "load_source_indices lib centers_target centers_source =
     (if \<not> shapes_agree centers_target centers_source then Inl RuntimeError
      else
        let L = n_latent centers_target centers_source;
            sorted = (\<lambda>t l. torch_sort_desc lib (sims_column centers_target centers_source t l))
        in Inr (map (\<lambda>t. map (\<lambda>l. fst (sorted t l)) [0..<L]) [0..<length centers_target],
                map (\<lambda>t. map (\<lambda>l. snd (sorted t l)) [0..<L]) [0..<length centers_target]))"

subsection \<open>Candidate selection: \<^verbatim>\<open>load_source_params\<close>\<close>

text \<open>What the base class \<^verbatim>\<open>VolumetricVideoDataset\<close> has set up when its constructor
  returns. The camera tensors enter through their centers only:
  \<open>c2w_centers\<close> is \<^verbatim>\<open>c2ws[..., :3, 3]\<close> and \<open>w2c_centers\<close> is
  \<^verbatim>\<open>affine_inverse(affine_padding(w2cs))[..., :3, 3]\<close>, both of shape (views, latents, 3).\<close>

record base_dataset =
  frame_sample :: "int option list"
  view_sample :: "int option list"
  cache_raw :: bool
  use_smpls :: bool
  use_vhulls :: bool
  n_views :: nat
  view_inds :: "nat list"
  frame_inds :: "nat list"
  c2w_centers :: "real list list list"
  w2c_centers :: "real list list list"

text \<open>The arguments of \<^verbatim>\<open>ImageBasedDataset.__init__\<close>.\<close>

record config =
  cfg_n_srcs_list :: "int list"
  cfg_n_srcs_prob :: "real list"
  cfg_append_gt_prob :: real
  cfg_extra_src_pool :: int
  cfg_closest_using_t :: bool
  cfg_use_object_prior :: bool
  cfg_objects_bounds :: "real list list option"
  cfg_supply_decoded :: bool
  cfg_barebone :: bool
  cfg_src_view_sample :: "int option list"
  cfg_force_sparse_view :: bool

text \<open>The state of the dataset after construction. \<open>src_centers\<close> stands for
  \<^verbatim>\<open>src_exts\<close>, of which only \<^verbatim>\<open>affine_inverse(src_exts)[..., :3, 3]\<close> is used.\<close>

record dataset =
  closest_using_t :: bool
  src_view_sample :: "int option list"
  src_view_inds :: "nat list"
  src_centers :: "real list list list"
  src_sims :: "sim list list list"
  src_inds :: "nat list list list"
  n_srcs_list :: "int list"
  n_srcs_prob :: "real list"
  extra_src_pool :: int
  append_gt_prob :: real
  use_object_prior :: bool
  objects_bounds :: "real list list option"
  supply_decoded :: bool
  barebone :: bool

text \<open>The default sample \<^verbatim>\<open>[0, None, 1]\<close>.\<close>

definition default_sample :: "int option list" where
  "default_sample = [Some 0, None, Some 1]"

text \<open>\<^verbatim>\<open>xs[b:e:s]\<close> on a tensor: the step must be positive.\<close>

definition py_slice3 :: "int option \<Rightarrow> int option \<Rightarrow> int option \<Rightarrow> 'a list \<Rightarrow> error + 'a list" where
  "py_slice3 b e s xs =
     (let step = (case s of None \<Rightarrow> 1 | Some k \<Rightarrow> k)
      in if step \<le> 0 then Inl ValueError
         else
           let n = length xs;
               lo = (case b of None \<Rightarrow> 0 | Some i \<Rightarrow> slice_bound n i);
               hi = (case e of None \<Rightarrow> n | Some i \<Rightarrow> slice_bound n i)
           in Inr (map (\<lambda>k. xs ! (lo + k * nat step)) [0..<(hi - lo + nat step - 1) div nat step]))"

text \<open>\<^verbatim>\<open>xs[i]\<close> for an integer \<open>i\<close>, and \<^verbatim>\<open>xs[[i, j, ...]]\<close> for a list of integers.\<close>

definition py_index :: "nat \<Rightarrow> int \<Rightarrow> error + nat" where
  "py_index n i =
     (if - int n \<le> i \<and> i < int n then Inr (nat (if i < 0 then i + int n else i))
      else Inl IndexError)"

fun index_list :: "'a list \<Rightarrow> int option list \<Rightarrow> error + 'a list" where
  "index_list xs [] = Inr []"
| "index_list xs (None # js) = Inl TypeError"
| "index_list xs (Some i # js) =
     (case py_index (length xs) i of
        Inl e \<Rightarrow> Inl e
      | Inr k \<Rightarrow> (case index_list xs js of Inl e \<Rightarrow> Inl e | Inr r \<Rightarrow> Inr (xs ! k # r)))"

text \<open>
  The index that \<^verbatim>\<open>load_source_params\<close> applies to the camera tensors: the tensor
  \<^verbatim>\<open>view_inds\<close> of the selected positions or, when it holds one position, the Python list
  \<^verbatim>\<open>[view_inds]\<close> that line 94 builds around it.
\<close>

datatype view_index = Tensor_index "nat list" | List_index "nat list"

definition wrap_single :: "nat list \<Rightarrow> view_index" where
  "wrap_single inds =
     (if length inds = 1 then List_index inds else Tensor_index inds)"

text \<open>
  Indexing an axis of a tensor, by the rules of the tensor library. A one-dimensional tensor
  of \<open>k\<close> positions selects the entries at these positions and keeps the axis, with size \<open>k\<close>.
  A Python list that holds a tensor is read as the tuple of its entries, so
  \<^verbatim>\<open>x[[view_inds]]\<close> is \<^verbatim>\<open>x[view_inds]\<close>; in \<^verbatim>\<open>x[:, [view_inds]]\<close> the list becomes a tensor of
  positions with the one-element tensor as its entry. A position beyond the axis raises.
\<close>

definition index_axis :: "'a list \<Rightarrow> view_index \<Rightarrow> error + 'a list" where
  "index_axis xs idx =
     (let positions = (case idx of Tensor_index ps \<Rightarrow> ps | List_index ps \<Rightarrow> ps)
      in if list_all (\<lambda>i. i < length xs) positions then Inr (map (\<lambda>i. xs ! i) positions)
         else Inl IndexError)"

text \<open>
  \<^verbatim>\<open>load_source_params\<close>: the candidates \<^verbatim>\<open>src_view_inds\<close> (the tensor, as line 93 stores it
  before line 94) and their cameras. With \<^verbatim>\<open>closest_using_t\<close> the candidates are frames: the
  source indexes the second axis and then swaps the first two axes, which is indexing the
  first axis of the transposed tensor.
\<close>

definition load_source_params :: "base_dataset \<Rightarrow> config \<Rightarrow> error + (nat list \<times> real list list list)" where
  "load_source_params b c =
     (let all_inds = [0..<length (if cfg_closest_using_t c then frame_inds b else view_inds b)];
          sample = cfg_src_view_sample c;
          selected = (if length sample \<noteq> 3 then index_list all_inds sample
                      else py_slice3 (sample ! 0) (sample ! 1) (sample ! 2) all_inds)
      in case selected of
           Inl e \<Rightarrow> Inl e
         | Inr inds \<Rightarrow>
             let idx = wrap_single inds;
                 cams = (if cfg_closest_using_t c then transpose (w2c_centers b) else w2c_centers b)
             in (case index_axis cams idx of
                   Inl e \<Rightarrow> Inl e
                 | Inr centers_source \<Rightarrow> Inr (inds, centers_source)))"

subsection \<open>The constructor\<close>

definition init :: "sort_impl \<Rightarrow> base_dataset \<Rightarrow> config \<Rightarrow> error + dataset" where
  "init lib b c =
     (if \<not> (\<not> cfg_closest_using_t c \<or> frame_sample b = default_sample \<or> cfg_force_sparse_view c)
      then Inl AssertionError
      else if \<not> (view_sample b = default_sample \<or> cfg_force_sparse_view c) then Inl AssertionError
      else if cache_raw b \<and> \<not> cfg_supply_decoded c then Inl AssertionError
      else
        case load_source_params b c of
          Inl e \<Rightarrow> Inl e
        | Inr (inds, centers_source) \<Rightarrow>
            let tar = (if cfg_closest_using_t c then transpose (c2w_centers b) else c2w_centers b)
            in (case load_source_indices lib tar centers_source of
                 Inl e \<Rightarrow> Inl e
               | Inr (sims, ranks) \<Rightarrow>
                   if cfg_use_object_prior c \<and> cfg_objects_bounds c = None
                      \<and> \<not> use_smpls b \<and> \<not> use_vhulls b
                   then Inl AssertionError
                   else Inr \<lparr> closest_using_t = cfg_closest_using_t c,
                              src_view_sample = cfg_src_view_sample c,
                              src_view_inds = inds,
                              src_centers = centers_source,
                              src_sims = sims,
                              src_inds = ranks,
                              n_srcs_list =
                                (if length (cfg_n_srcs_list c) \<noteq> 1 \<or> cfg_n_srcs_list c ! 0 \<noteq> 0
                                 then cfg_n_srcs_list c else [int (n_views b)]),
                              n_srcs_prob = cfg_n_srcs_prob c,
                              extra_src_pool = cfg_extra_src_pool c,
                              append_gt_prob = cfg_append_gt_prob c,
                              use_object_prior = cfg_use_object_prior c,
                              objects_bounds = cfg_objects_bounds c,
                              supply_decoded = cfg_supply_decoded c,
                              barebone = cfg_barebone c \<rparr>))"

subsection \<open>The random generator\<close>

text \<open>
  \<^verbatim>\<open>random.choices(population, weights)[0]\<close>, with the uniform variate \<open>u\<close> of
  \<^verbatim>\<open>random.random()\<close> as an argument: the cumulative weights are searched by bisection
  for \<open>u * total\<close>.
\<close>

fun accumulate_from :: "real \<Rightarrow> real list \<Rightarrow> real list" where
  "accumulate_from s [] = []"
| "accumulate_from s (w # ws) = (s + w) # accumulate_from (s + w) ws"

function bisect :: "real list \<Rightarrow> real \<Rightarrow> nat \<Rightarrow> nat \<Rightarrow> nat" where
  "bisect a x lo hi =
     (if lo < hi
      then (if x < a ! ((lo + hi) div 2) then bisect a x lo ((lo + hi) div 2)
            else bisect a x ((lo + hi) div 2 + 1) hi)
      else lo)"
  by pat_completeness auto
termination
  by (relation "measure (\<lambda>(a, x, lo, hi). hi - lo)") auto

definition random_choices :: "real \<Rightarrow> 'a list \<Rightarrow> real list \<Rightarrow> error + 'a" where
  "random_choices u population weights =
     (let n = length population; cum_weights = accumulate_from 0 weights
      in if length cum_weights \<noteq> n then Inl ValueError
         else if cum_weights = [] then Inl IndexError
         else
           let total = last cum_weights
           in if total \<le> 0 then Inl ValueError
              else Inr (population ! bisect cum_weights (u * total) 0 (n - 1)))"


definition random_sample :: "nat list \<Rightarrow> 'a list \<Rightarrow> int \<Rightarrow> error + 'a list" where
  "random_sample picks population k =
     (if k < 0 \<or> int (length population) < k then Inl ValueError
      else Inr (map (\<lambda>p. population ! p) picks))"

subsection \<open>The training-time selector: \<^verbatim>\<open>get_metadata\<close>\<close>

text \<open>\<^verbatim>\<open>1 if random.random() > self.append_gt_prob else 0\<close>, for the variate \<open>u\<close>.\<close>

definition remove_gt_of :: "real \<Rightarrow> real \<Rightarrow> int" where
  "remove_gt_of u p = (if u > p then 1 else 0)"

text \<open>The slice \<^verbatim>\<open>self.src_inds[target_index, remove_gt:remove_gt + n_srcs + random_ap, extra_index]\<close>.\<close>

definition src_pool :: "dataset \<Rightarrow> nat \<Rightarrow> nat \<Rightarrow> int \<Rightarrow> real \<Rightarrow> nat list" where
  "src_pool ds target_index extra_index n_srcs u =
     (let remove_gt = remove_gt_of u (append_gt_prob ds);
          random_ap = extra_src_pool ds
      in py_slice remove_gt (remove_gt + n_srcs + random_ap)
           (src_inds ds ! target_index ! extra_index))"

text \<open>Lines 190 to 193 of \<^verbatim>\<open>get_metadata\<close>: the candidate positions selected for the target
  \<open>target_index\<close> at \<open>extra_index\<close>, for \<open>n_srcs\<close> sources.\<close>

definition select_src_inds :: "dataset \<Rightarrow> nat \<Rightarrow> nat \<Rightarrow> int \<Rightarrow> real \<Rightarrow> nat list \<Rightarrow> error + nat list" where
  "select_src_inds ds target_index extra_index n_srcs u picks =
     (if length (src_inds ds) \<le> target_index then Inl IndexError
      else if length (src_inds ds ! target_index) \<le> extra_index then Inl IndexError
      else
        let pool = src_pool ds target_index extra_index n_srcs u
        in if extra_src_pool ds \<noteq> 0 then random_sample picks pool n_srcs else Inr pool)"

text \<open>\<^verbatim>\<open>self.src_view_inds.gather(-1, src_inds)\<close>\<close>

definition gather :: "nat list \<Rightarrow> nat list \<Rightarrow> error + nat list" where
  "gather xs inds =
     (if list_all (\<lambda>i. i < length xs) inds then Inr (map (\<lambda>i. xs ! i) inds) else Inl RuntimeError)"

text \<open>
  The source selection of \<^verbatim>\<open>get_metadata\<close>. \<open>pre\<close> is the count \<^verbatim>\<open>index.n_srcs\<close> of a
  query that a sampler resolved, or \<open>None\<close> for a plain index, whose count \<open>draw_n_srcs\<close>
  draws from \<^verbatim>\<open>n_srcs_list\<close>; \<open>view_index\<close> and \<open>latent_index\<close> are what the base class
  returns for the index. The result is the pair of the candidate positions (which index
  \<^verbatim>\<open>src_exts\<close> and \<^verbatim>\<open>src_ixts\<close>) and of the view indices \<^verbatim>\<open>output.src_inds\<close>.
  Lines 197 and 198 index \<^verbatim>\<open>src_exts\<close> and \<^verbatim>\<open>src_ixts\<close> with the selected positions. After
  \<^verbatim>\<open>random.sample\<close> these are \<^verbatim>\<open>torch.as_tensor\<close> of a list of integers, and of the empty list
  this is a tensor of floats, which is not an index: \<^verbatim>\<open>IndexError\<close>. The slice of the ranking
  that is used when \<^verbatim>\<open>extra_src_pool\<close> is 0 is a tensor of integers also when it is empty.
\<close>

definition draw_n_srcs :: "dataset \<Rightarrow> int option \<Rightarrow> real \<Rightarrow> error + int" where
  "draw_n_srcs ds pre u_choice =
     (case pre of Some n \<Rightarrow> Inr n
      | None \<Rightarrow> random_choices u_choice (n_srcs_list ds) (n_srcs_prob ds))"

definition get_metadata ::
  "dataset \<Rightarrow> nat \<Rightarrow> nat \<Rightarrow> int option \<Rightarrow> real \<Rightarrow> real \<Rightarrow> nat list \<Rightarrow> error + (nat list \<times> nat list)" where
  "get_metadata ds view_index latent_index pre u_choice u_gt picks =
     (case draw_n_srcs ds pre u_choice of
        Inl e \<Rightarrow> Inl e
      | Inr n_srcs \<Rightarrow>
          let target_index = (if closest_using_t ds then latent_index else view_index);
              extra_index = (if closest_using_t ds then view_index else latent_index)
          in (case select_src_inds ds target_index extra_index n_srcs u_gt picks of
               Inl e \<Rightarrow> Inl e
             | Inr sel \<Rightarrow>
                 if extra_src_pool ds \<noteq> 0 \<and> sel = [] then Inl IndexError
                 else (case gather (src_view_inds ds) sel of
                         Inl e \<Rightarrow> Inl e
                       | Inr srcs \<Rightarrow> Inr (sel, srcs))))"

subsection \<open>The viewer selector: \<^verbatim>\<open>get_viewer_batch\<close>\<close>

text \<open>\<^verbatim>\<open>1 / (centers_source - center_target).norm(dim=-1).clip(1e-10)\<close>\<close>

definition viewer_sims :: "real list list \<Rightarrow> real list \<Rightarrow> sim list" where
  "viewer_sims centers_source center_target =
     map (\<lambda>c. inv_dist (max (vnorm (vsub c center_target)) (1 / 10 ^ 10))) centers_source"



text \<open>
  The bounds of the viewer batch, in \<^verbatim>\<open>ImageBasedDataset.get_viewer_batch\<close> as in
  \<^verbatim>\<open>NoopDataset.get_viewer_batch\<close>: \<open>ds_bounds\<close> is what \<^verbatim>\<open>self.get_bounds(latent_index)\<close>
  returns, \<open>bounds\<close> the bounds of the call; row 0 and then row 1 are overwritten.
\<close>

definition torch_maximum :: "real list \<Rightarrow> real list \<Rightarrow> real list" where
  "torch_maximum a b = map2 max a b"

definition torch_minimum :: "real list \<Rightarrow> real list \<Rightarrow> real list" where
  "torch_minimum a b = map2 min a b"

definition viewer_bounds :: "real list list \<Rightarrow> real list list \<Rightarrow> error + real list list" where
  "viewer_bounds ds_bounds bounds =
     (if length ds_bounds < 1 \<or> length bounds < 1 then Inl IndexError
      else
        let out = ds_bounds[0 := torch_maximum (ds_bounds ! 0) (bounds ! 0)]
        in if length out < 2 \<or> length bounds < 2 then Inl IndexError
           else Inr (out[1 := torch_minimum (out ! 1) (bounds ! 1)]))"

text \<open>A point lies in a box \<open>[lower, upper]\<close>.\<close>

definition in_box :: "real list \<Rightarrow> real list list \<Rightarrow> bool" where
  "in_box p box = (list_all2 (\<le>) (box ! 0) p \<and> list_all2 (\<le>) p (box ! 1))"

subsection \<open>The object prior: \<^verbatim>\<open>get_objects_prior\<close>\<close>





subsection \<open>Examples\<close>

text \<open>The five cameras of the example and the target at \<open>(0.5, 0, 0)\<close>, one latent.\<close>

definition example_sources :: "real list list list" where
  "example_sources = [[[0, 0, 0]], [[1, 0, 0]], [[2, 0, 0]], [[5, 0, 0]], [[10, 0, 0]]]"

definition example_targets :: "real list list list" where
  "example_targets = [[[1 / 2, 0, 0]]]"

text \<open>
  A dataset that realises the example through the constructor: six views, one latent; view 0
  is the target at \<open>(0.5, 0, 0)\<close> and \<^verbatim>\<open>src_view_sample = [1, None, 1]\<close> makes the views 1 to 5
  the candidates 0 to 4. The remaining arguments of the constructor have their defaults.
\<close>

definition example_views :: "real list list list" where
  "example_views = [[[1 / 2, 0, 0]], [[0, 0, 0]], [[1, 0, 0]], [[2, 0, 0]], [[5, 0, 0]], [[10, 0, 0]]]"

definition example_base :: base_dataset where
  "example_base =
     \<lparr> frame_sample = default_sample, view_sample = default_sample, cache_raw = False,
       use_smpls = False, use_vhulls = False, n_views = 6, view_inds = [0, 1, 2, 3, 4, 5],
       frame_inds = [0], c2w_centers = example_views, w2c_centers = example_views \<rparr>"

definition example_config :: "int list \<Rightarrow> real list \<Rightarrow> int \<Rightarrow> real \<Rightarrow> config" where
  "example_config counts probs pool p =
     \<lparr> cfg_n_srcs_list = counts, cfg_n_srcs_prob = probs, cfg_append_gt_prob = p,
       cfg_extra_src_pool = pool, cfg_closest_using_t = False, cfg_use_object_prior = False,
       cfg_objects_bounds = None, cfg_supply_decoded = False, cfg_barebone = False,
       cfg_src_view_sample = [Some 1, None, Some 1], cfg_force_sparse_view = False \<rparr>"

text \<open>The dataset a successful construction returns.\<close>

definition constructed :: "sort_impl \<Rightarrow> base_dataset \<Rightarrow> config \<Rightarrow> dataset" where
  "constructed lib b c = projr (init lib b c)"

text \<open>
  Seventeen candidates at distance 1 from a target at the origin, and the arrangement in which
  an introsort with a median-of-three pivot and a cutoff of 16 entries leaves seventeen equal
  values.
\<close>

definition tied_sources :: "real list list list" where
  "tied_sources =
     [[[1, 0, 0]], [[-1, 0, 0]], [[0, 1, 0]], [[0, -1, 0]], [[0, 0, 1]], [[0, 0, -1]],
      [[3 / 5, 4 / 5, 0]], [[4 / 5, 3 / 5, 0]], [[-3 / 5, 4 / 5, 0]], [[-4 / 5, 3 / 5, 0]],
      [[3 / 5, -4 / 5, 0]], [[4 / 5, -3 / 5, 0]], [[0, 3 / 5, 4 / 5]], [[0, 4 / 5, 3 / 5]],
      [[3 / 5, 0, 4 / 5]], [[4 / 5, 0, 3 / 5]], [[0, -3 / 5, 4 / 5]]]"

definition tied_targets :: "real list list list" where
  "tied_targets = [[[0, 0, 0]]]"

definition introsort_order :: sort_impl where
  "introsort_order vals = [8, 16, 15, 14, 13, 12, 11, 10, 9, 0, 7, 6, 5, 4, 3, 2, 1]"

subsection \<open>Facts about the sort\<close>

lemma sim_less_irrefl: "\<not> sim_less a a"
  by (cases a) simp_all

lemma sim_less_trans: "sim_less a b \<Longrightarrow> sim_less b c \<Longrightarrow> sim_less a c"
  by (cases a; cases b; cases c) simp_all

lemma sim_less_total: "sim_less a b \<or> a = b \<or> sim_less b a"
  by (cases a; cases b) auto

lemma sim_less_asym: "sim_less a b \<Longrightarrow> \<not> sim_less b a"
  by (cases a; cases b) auto

lemma rank_before_trans: "rank_before a b \<Longrightarrow> rank_before b c \<Longrightarrow> rank_before a c"
  unfolding rank_before_def by (auto intro: sim_less_trans)

lemma set_insort_desc: "set (insort_desc x ys) = insert x (set ys)"
  by (induction ys) auto

lemma length_insort_desc: "length (insort_desc x ys) = Suc (length ys)"
  by (induction ys) auto

lemma distinct_insort_desc: "distinct (map snd ys) \<Longrightarrow> snd x \<notin> snd ` set ys \<Longrightarrow>
    distinct (map snd (insort_desc x ys))"
  by (induction ys) (auto simp: set_insort_desc)

lemma sorted_insort_desc:
  assumes "sorted_wrt rank_before ys" and "\<forall>y\<in>set ys. snd x < snd y"
  shows "sorted_wrt rank_before (insort_desc x ys)"
  using assms
proof (induction ys)
  case Nil
  then show ?case by simp
next
  case (Cons y ys)
  show ?case
  proof (cases "sim_less (fst x) (fst y)")
    case True
    have "rank_before y x" using True by (simp add: rank_before_def)
    moreover have "sorted_wrt rank_before (insort_desc x ys)"
      using Cons by simp
    ultimately show ?thesis using True Cons.prems(1)
      by (auto simp: set_insort_desc)
  next
    case False
    have xy: "rank_before x y"
      using False sim_less_total[of "fst x" "fst y"] Cons.prems(2)
      by (auto simp: rank_before_def)
    have "\<forall>z\<in>set ys. rank_before x z"
      using xy Cons.prems(1) by (auto intro: rank_before_trans)
    then show ?thesis using False xy Cons.prems(1) by simp
  qed
qed

lemma set_sort_desc: "set (sort_desc ps) = set ps"
  unfolding sort_desc_def by (induction ps) (auto simp: set_insort_desc)

lemma length_sort_desc: "length (sort_desc ps) = length ps"
  unfolding sort_desc_def by (induction ps) (auto simp: length_insort_desc)

lemma distinct_sort_desc: "distinct (map snd ps) \<Longrightarrow> distinct (map snd (sort_desc ps))"
proof (induction ps)
  case Nil
  then show ?case by (simp add: sort_desc_def)
next
  case (Cons p ps)
  have "distinct (map snd (sort_desc ps))" using Cons by simp
  moreover have "snd p \<notin> snd ` set (sort_desc ps)"
    using Cons.prems by (simp add: set_sort_desc)
  ultimately have "distinct (map snd (insort_desc p (sort_desc ps)))"
    by (rule distinct_insort_desc)
  then show ?case by (simp add: sort_desc_def)
qed

lemma sorted_sort_desc:
  "sorted_wrt (\<lambda>a b. snd a < snd b) ps \<Longrightarrow> sorted_wrt rank_before (sort_desc ps)"
proof (induction ps)
  case Nil
  then show ?case by (simp add: sort_desc_def)
next
  case (Cons p ps)
  have "sorted_wrt rank_before (sort_desc ps)" using Cons by simp
  moreover have "\<forall>y\<in>set (sort_desc ps). snd p < snd y"
    using Cons.prems by (simp add: set_sort_desc)
  ultimately have "sorted_wrt rank_before (insort_desc p (sort_desc ps))"
    by (rule sorted_insort_desc)
  then show ?case by (simp add: sort_desc_def)
qed

lemma sorted_zip_upt: "sorted_wrt (\<lambda>a b. snd a < snd b) (zip vals [0..<length vals])"
proof -
  have "sorted_wrt (<) (map snd (zip vals [0..<length vals]))"
    by simp
  then show ?thesis by (simp only: sorted_wrt_map)
qed

lemma sim_ge_refl: "sim_ge a a"
  by (simp add: sim_ge_def sim_less_irrefl)

lemma sim_ge_trans: "sim_ge a b \<Longrightarrow> sim_ge b c \<Longrightarrow> sim_ge a c"
  unfolding sim_ge_def by (cases a; cases b; cases c) auto

lemma descending_insort_desc:
  assumes "sorted_wrt (\<lambda>a b. sim_ge (fst a) (fst b)) ys"
  shows "sorted_wrt (\<lambda>a b. sim_ge (fst a) (fst b)) (insort_desc x ys)"
  using assms
proof (induction ys)
  case Nil
  then show ?case by simp
next
  case (Cons y ys)
  show ?case
  proof (cases "sim_less (fst x) (fst y)")
    case True
    have "sim_ge (fst y) (fst x)" using True sim_less_asym by (auto simp: sim_ge_def)
    moreover have "sorted_wrt (\<lambda>a b. sim_ge (fst a) (fst b)) (insort_desc x ys)"
      using Cons by simp
    ultimately show ?thesis using True Cons.prems
      by (auto simp: set_insort_desc)
  next
    case False
    then have xy: "sim_ge (fst x) (fst y)" by (simp add: sim_ge_def)
    have "\<forall>z\<in>set ys. sim_ge (fst x) (fst z)"
      using xy Cons.prems by (auto intro: sim_ge_trans)
    then show ?thesis using False xy Cons.prems by simp
  qed
qed

lemma descending_sort_desc: "sorted_wrt (\<lambda>a b. sim_ge (fst a) (fst b)) (sort_desc ps)"
proof (induction ps)
  case Nil
  then show ?case by (simp add: sort_desc_def)
next
  case (Cons p ps)
  have "sorted_wrt (\<lambda>a b. sim_ge (fst a) (fst b)) (insort_desc p (sort_desc ps))"
    using Cons by (rule descending_insort_desc)
  then show ?case by (simp add: sort_desc_def)
qed

lemma sort_desc_sorted:
  "sorted_wrt (\<lambda>a b. sim_ge (fst a) (fst b)) ps \<Longrightarrow> sort_desc ps = ps"
proof (induction ps)
  case Nil
  then show ?case by (simp add: sort_desc_def)
next
  case (Cons p ps)
  have ih: "sort_desc ps = ps" using Cons by simp
  have "insort_desc p ps = p # ps"
  proof (cases ps)
    case Nil
    then show ?thesis by simp
  next
    case (Cons q qs)
    then have "\<not> sim_less (fst p) (fst q)" using Cons.prems by (simp add: sim_ge_def)
    then show ?thesis using Cons by simp
  qed
  then show ?case using ih by (simp add: sort_desc_def)
qed

lemma arrangement_perm:
  "length (arrangement lib vals) = length vals"
  "distinct (arrangement lib vals)"
  "set (arrangement lib vals) = {0..<length vals}"
proof -
  let ?p = "lib vals"
  show "length (arrangement lib vals) = length vals"
    by (simp add: arrangement_def Let_def)
  show "distinct (arrangement lib vals)"
    by (simp add: arrangement_def Let_def)
  show "set (arrangement lib vals) = {0..<length vals}"
  proof (cases "length ?p = length vals \<and> distinct ?p \<and> list_all (\<lambda>i. i < length vals) ?p")
    case True
    then have sub: "set ?p \<subseteq> {0..<length vals}" by (auto simp: list_all_iff)
    have "card (set ?p) = length vals" using True by (simp add: distinct_card)
    then have "set ?p = {0..<length vals}"
      using sub by (intro card_subset_eq) simp_all
    then show ?thesis using True by (simp add: arrangement_def Let_def)
  next
    case False
    then show ?thesis by (auto simp: arrangement_def Let_def)
  qed
qed

lemma arrangement_index_order: "arrangement index_order vals = [0..<length vals]"
  by (simp add: arrangement_def index_order_def Let_def)

lemma pairs_upt: "map (\<lambda>i. (vals ! i, i)) [0..<length vals] = zip vals [0..<length vals]"
  by (rule nth_equalityI) simp_all

lemma length_torch_sort_desc:
  "length (fst (torch_sort_desc lib vals)) = length vals"
  "length (snd (torch_sort_desc lib vals)) = length vals"
  by (simp_all add: torch_sort_desc_def Let_def length_sort_desc arrangement_perm)

lemma set_torch_sort_desc: "set (snd (torch_sort_desc lib vals)) = {0..<length vals}"
proof -
  have "set (snd (torch_sort_desc lib vals)) = snd ` set (map (\<lambda>i. (vals ! i, i)) (arrangement lib vals))"
    by (simp add: torch_sort_desc_def Let_def set_sort_desc)
  also have "\<dots> = set (arrangement lib vals)" by force
  finally show ?thesis by (simp add: arrangement_perm)
qed

lemma distinct_torch_sort_desc: "distinct (snd (torch_sort_desc lib vals))"
proof -
  have "map snd (map (\<lambda>i. (vals ! i, i)) (arrangement lib vals)) = arrangement lib vals"
    by (simp add: comp_def)
  then have "distinct (map snd (map (\<lambda>i. (vals ! i, i)) (arrangement lib vals)))"
    by (simp only: arrangement_perm)
  then show ?thesis
    by (simp add: torch_sort_desc_def Let_def distinct_sort_desc del: map_map)
qed

lemma torch_sort_desc_values:
  assumes "i < length vals"
  shows "fst (torch_sort_desc lib vals) ! i = vals ! (snd (torch_sort_desc lib vals) ! i)"
proof -
  let ?ps = "sort_desc (map (\<lambda>i. (vals ! i, i)) (arrangement lib vals))"
  have len: "i < length ?ps" using assms by (simp add: length_sort_desc arrangement_perm)
  then have "?ps ! i \<in> set (map (\<lambda>i. (vals ! i, i)) (arrangement lib vals))"
    using set_sort_desc nth_mem by blast
  then have "fst (?ps ! i) = vals ! snd (?ps ! i)"
    by auto
  then show ?thesis using len by (simp add: torch_sort_desc_def Let_def)
qed

lemma torch_sort_desc_descending_values:
  assumes "i < j" and "j < length vals"
  shows "sim_ge (fst (torch_sort_desc lib vals) ! i) (fst (torch_sort_desc lib vals) ! j)"
proof -
  let ?ps = "sort_desc (map (\<lambda>i. (vals ! i, i)) (arrangement lib vals))"
  have len: "j < length ?ps" using assms by (simp add: length_sort_desc arrangement_perm)
  have "sorted_wrt (\<lambda>a b. sim_ge (fst a) (fst b)) ?ps" by (rule descending_sort_desc)
  then have "sim_ge (fst (?ps ! i)) (fst (?ps ! j))"
    using assms(1) len by (simp add: sorted_wrt_iff_nth_less)
  then show ?thesis using len assms(1) by (simp add: torch_sort_desc_def Let_def)
qed

lemma torch_sort_desc_ranked:
  assumes "i < j" and "j < length vals"
  shows "rank_before (fst (torch_sort_desc index_order vals) ! i, snd (torch_sort_desc index_order vals) ! i)
           (fst (torch_sort_desc index_order vals) ! j, snd (torch_sort_desc index_order vals) ! j)"
proof -
  let ?ps = "sort_desc (zip vals [0..<length vals])"
  have ts: "torch_sort_desc index_order vals = (map fst ?ps, map snd ?ps)"
    by (simp only: torch_sort_desc_def arrangement_index_order pairs_upt Let_def)
  have len: "j < length ?ps" using assms by (simp add: length_sort_desc)
  have "sorted_wrt rank_before ?ps" by (rule sorted_sort_desc) (rule sorted_zip_upt)
  then have "rank_before (?ps ! i) (?ps ! j)"
    using assms(1) len by (simp add: sorted_wrt_iff_nth_less)
  then show ?thesis using len assms(1) by (simp add: ts)
qed

text \<open>Every arrangement of the positions that is in descending order of the values is the
  outcome of the sort for the \<open>sort_impl\<close> that returns it.\<close>

lemma torch_sort_desc_sorted_arrangement:
  assumes "length p = length vals" and "distinct p" and "list_all (\<lambda>i. i < length vals) p"
    and "sorted_wrt (\<lambda>i j. sim_ge (vals ! i) (vals ! j)) p"
  shows "torch_sort_desc (\<lambda>_. p) vals = (map (\<lambda>i. vals ! i) p, p)"
proof -
  have a: "arrangement (\<lambda>_. p) vals = p" using assms(1,2,3) by (simp add: arrangement_def)
  have "sorted_wrt (\<lambda>a b. sim_ge (fst a) (fst b)) (map (\<lambda>i. (vals ! i, i)) p)"
    using assms(4) by (simp add: sorted_wrt_map)
  then have "sort_desc (map (\<lambda>i. (vals ! i, i)) p) = map (\<lambda>i. (vals ! i, i)) p"
    by (rule sort_desc_sorted)
  then show ?thesis by (simp add: torch_sort_desc_def a comp_def)
qed

subsection \<open>Facts about the ranking\<close>

lemma vnorm_axis: "vnorm [x, 0, 0] = \<bar>x\<bar>"
  by (simp add: vnorm_def)

lemma length_sims_column: "length (sims_column ct cs t l) = length cs"
  by (simp add: sims_column_def)

lemma load_source_indices_nth:
  assumes "load_source_indices lib ct cs = Inr (sims, inds)" and "t < length ct" and "l < n_latent ct cs"
  shows "sims ! t ! l = fst (torch_sort_desc lib (sims_column ct cs t l))"
    and "inds ! t ! l = snd (torch_sort_desc lib (sims_column ct cs t l))"
    and "length inds = length ct" and "length (inds ! t) = n_latent ct cs"
    and "length sims = length ct" and "length (sims ! t) = n_latent ct cs"
  using assms by (auto simp: load_source_indices_def Let_def split: if_splits)

lemma torch_sort_desc_example:
  "torch_sort_desc index_order [Finite 2, Finite 2, Finite (2 / 3), Finite (2 / 9), Finite (2 / 19)] =
     ([Finite 2, Finite 2, Finite (2 / 3), Finite (2 / 9), Finite (2 / 19)], [0, 1, 2, 3, 4])"
  by (simp add: torch_sort_desc_def arrangement_index_order Let_def sort_desc_def upt_conv_Cons)

lemma example_sims_column0:
  "sims_column example_targets example_sources 0 0 =
     [Finite 2, Finite 2, Finite (2 / 3), Finite (2 / 9), Finite (2 / 19)]"
  by (simp add: sims_column_def example_targets_def example_sources_def vsub_def vnorm_axis
      inv_dist_def upt_conv_Cons)

lemma example_ranking:
  "load_source_indices index_order example_targets example_sources =
     Inr ([[[Finite 2, Finite 2, Finite (2 / 3), Finite (2 / 9), Finite (2 / 19)]]],
          [[[0, 1, 2, 3, 4]]])"
proof -
  have "shapes_agree example_targets example_sources"
    and "n_latent example_targets example_sources = 1" and "length example_targets = 1"
    by (simp_all add: shapes_agree_def n_latent_def example_targets_def example_sources_def)
  then show ?thesis
    by (simp add: load_source_indices_def Let_def example_sims_column0 torch_sort_desc_example)
qed

lemma tied_sims_column:
  "sims_column tied_targets tied_sources 0 0 = replicate 17 (Finite 1)"
  by (simp add: sims_column_def tied_targets_def tied_sources_def vsub_def vnorm_def
      inv_dist_def upt_conv_Cons eval_nat_numeral)

lemma tied_ranking:
  "load_source_indices introsort_order tied_targets tied_sources =
     Inr ([[replicate 17 (Finite 1)]],
          [[[8, 16, 15, 14, 13, 12, 11, 10, 9, 0, 7, 6, 5, 4, 3, 2, 1]]])"
proof -
  let ?p = "[8, 16, 15, 14, 13, 12, 11, 10, 9, 0, 7, 6, 5, 4, 3, 2, 1 :: nat]"
  have io: "introsort_order = (\<lambda>_. ?p)" by (rule ext) (simp add: introsort_order_def)
  have "torch_sort_desc (\<lambda>_. ?p) (replicate 17 (Finite 1)) = (map (\<lambda>i. replicate 17 (Finite 1) ! i) ?p, ?p)"
    by (rule torch_sort_desc_sorted_arrangement) (simp_all add: sim_ge_refl)
  then have ts: "torch_sort_desc introsort_order (replicate 17 (Finite 1)) = (replicate 17 (Finite 1), ?p)"
    by (simp add: io eval_nat_numeral)
  have "shapes_agree tied_targets tied_sources"
    and "n_latent tied_targets tied_sources = 1" and "length tied_targets = 1"
    by (simp_all add: shapes_agree_def n_latent_def tied_targets_def tied_sources_def)
  then show ?thesis
    by (simp add: load_source_indices_def Let_def tied_sims_column ts)
qed

text \<open>
  Claim C5, amended. For every target index \<open>t\<close> and secondary index \<open>l\<close>, the ranking that
  \<^verbatim>\<open>load_source_indices\<close> stores is sorted by descending similarity: an earlier rank never
  has a smaller similarity than a later one. Each stored similarity is the similarity of
  the candidate stored at the same rank, and the ranks hold every candidate once. The order
  of equal similarities is the one the library's sort leaves: it is ascending candidate index
  when that sort keeps equal values in place (\<open>index_order\<close>), which the call does not ask
  for. For the candidates at \<open>(0,0,0)\<close>, \<open>(1,0,0)\<close>, \<open>(2,0,0)\<close>, \<open>(5,0,0)\<close>, \<open>(10,0,0)\<close> and the
  target at \<open>(0.5,0,0)\<close> the ranking is \<open>[0,1,2,3,4]\<close> with such a sort.
\<close>

theorem ranking_descending:
  "(load_source_indices lib ct cs = Inr (sims, inds) \<longrightarrow> t < length ct \<longrightarrow> l < n_latent ct cs \<longrightarrow>
      i < j \<longrightarrow> j < length cs \<longrightarrow>
        sim_ge (sims ! t ! l ! i) (sims ! t ! l ! j)
        \<and> sims ! t ! l ! i = sims_column ct cs t l ! (inds ! t ! l ! i)
        \<and> distinct (inds ! t ! l) \<and> set (inds ! t ! l) = {0..<length cs})
   \<and> (load_source_indices index_order ct cs = Inr (sims', inds') \<longrightarrow> t < length ct \<longrightarrow>
        l < n_latent ct cs \<longrightarrow> i < j \<longrightarrow> j < length cs \<longrightarrow>
          sims' ! t ! l ! i = sims' ! t ! l ! j \<longrightarrow> inds' ! t ! l ! i < inds' ! t ! l ! j)
   \<and> load_source_indices index_order example_targets example_sources =
       Inr ([[[Finite 2, Finite 2, Finite (2 / 3), Finite (2 / 9), Finite (2 / 19)]]],
            [[[0, 1, 2, 3, 4]]])"
proof (intro conjI impI)
  assume ld: "load_source_indices lib ct cs = Inr (sims, inds)" and t: "t < length ct"
    and l: "l < n_latent ct cs" and ij: "i < j" and j: "j < length cs"
  let ?col = "sims_column ct cs t l"
  have s: "sims ! t ! l = fst (torch_sort_desc lib ?col)"
    and n: "inds ! t ! l = snd (torch_sort_desc lib ?col)"
    using load_source_indices_nth[OF ld t l] by simp_all
  have len: "length ?col = length cs" by (rule length_sims_column)
  show "sim_ge (sims ! t ! l ! i) (sims ! t ! l ! j)"
    unfolding s using torch_sort_desc_descending_values[of i j ?col lib] ij j len by simp
  show "sims ! t ! l ! i = sims_column ct cs t l ! (inds ! t ! l ! i)"
    unfolding s n using torch_sort_desc_values[of i ?col lib] ij j len by simp
  show "distinct (inds ! t ! l)" unfolding n by (rule distinct_torch_sort_desc)
  show "set (inds ! t ! l) = {0..<length cs}"
    unfolding n by (simp add: set_torch_sort_desc len)
next
  assume ld: "load_source_indices index_order ct cs = Inr (sims', inds')" and t: "t < length ct"
    and l: "l < n_latent ct cs" and ij: "i < j" and j: "j < length cs"
    and eq: "sims' ! t ! l ! i = sims' ! t ! l ! j"
  let ?col = "sims_column ct cs t l"
  have s: "sims' ! t ! l = fst (torch_sort_desc index_order ?col)"
    and n: "inds' ! t ! l = snd (torch_sort_desc index_order ?col)"
    using load_source_indices_nth[OF ld t l] by simp_all
  have len: "length ?col = length cs" by (rule length_sims_column)
  have "rank_before (sims' ! t ! l ! i, inds' ! t ! l ! i) (sims' ! t ! l ! j, inds' ! t ! l ! j)"
    unfolding s n using torch_sort_desc_ranked[of i j ?col] ij j len by simp
  then show "inds' ! t ! l ! i < inds' ! t ! l ! j"
    using eq sim_less_irrefl by (auto simp: rank_before_def)
next
  show "load_source_indices index_order example_targets example_sources =
       Inr ([[[Finite 2, Finite 2, Finite (2 / 3), Finite (2 / 9), Finite (2 / 19)]]],
            [[[0, 1, 2, 3, 4]]])"
    by (rule example_ranking)
qed

theorem ranking_descending_witness:
  "sim_ge (Finite 2) (Finite 2) \<and> (0::nat) < 1
   \<and> load_source_indices index_order example_targets example_sources =
       Inr ([[[Finite 2, Finite 2, Finite (2 / 3), Finite (2 / 9), Finite (2 / 19)]]],
            [[[0, 1, 2, 3, 4]]])"
  using ranking_descending[of index_order example_targets example_sources
      "[[[Finite 2, Finite 2, Finite (2 / 3), Finite (2 / 9), Finite (2 / 19)]]]"
      "[[[0, 1, 2, 3, 4]]]" 0 0 0 1
      "[[[Finite 2, Finite 2, Finite (2 / 3), Finite (2 / 9), Finite (2 / 19)]]]"
      "[[[0, 1, 2, 3, 4]]]"]
  by (simp add: example_targets_def example_sources_def n_latent_def)

theorem ranking_ties_unordered_counterexample:
  "load_source_indices introsort_order tied_targets tied_sources =
     Inr ([[replicate 17 (Finite 1)]],
          [[[8, 16, 15, 14, 13, 12, 11, 10, 9, 0, 7, 6, 5, 4, 3, 2, 1]]])
   \<and> replicate 17 (Finite 1) ! 1 = replicate 17 (Finite 1) ! 2
   \<and> \<not> [8, 16, 15, 14, 13, 12, 11, 10, 9, 0, 7, 6, 5, 4, 3, 2, 1 :: nat] ! 1
         < [8, 16, 15, 14, 13, 12, 11, 10, 9, 0, 7, 6, 5, 4, 3, 2, 1] ! 2"
  by (simp add: tied_ranking)

subsection \<open>Facts about the object prior\<close>







subsection \<open>Facts about the viewer selector\<close>

lemma vnorm_nonneg: "0 \<le> vnorm v"
proof -
  have "0 \<le> sum_list (map (\<lambda>x. x * x) v)"
    by (rule sum_list_nonneg) auto
  then show ?thesis by (simp add: vnorm_def)
qed

lemma vsub_self: "vsub c c = map (\<lambda>_. 0) c"
  by (induction c) (simp_all add: vsub_def)

lemma vnorm_vsub_self: "vnorm (vsub c c) = 0"
proof -
  have "sum_list (map (\<lambda>x. x * x) (map (\<lambda>_. 0::real) c)) = 0"
    by (induction c) simp_all
  then show ?thesis by (simp add: vnorm_def vsub_self)
qed

lemma clipped_inverse:
  assumes "0 \<le> d"
  shows "\<exists>r. inv_dist (max d (1 / 10 ^ 10)) = Finite r \<and> 0 < r \<and> r \<le> 10 ^ 10"
proof -
  let ?m = "max d (1 / 10 ^ 10)"
  have pos: "(1::real) / 10 ^ 10 \<le> ?m" by simp
  then have m0: "0 < ?m" by (smt (verit) zero_less_divide_1_iff zero_less_numeral zero_less_power)
  have "1 / ?m \<le> 1 / (1 / 10 ^ 10)"
    using pos by (intro divide_left_mono) simp_all
  then have "1 / ?m \<le> 10 ^ 10" by simp
  moreover have "0 < 1 / ?m" using m0 by simp
  moreover have "inv_dist ?m = Finite (1 / ?m)" using m0 by (simp add: inv_dist_def)
  ultimately show ?thesis by blast
qed

text \<open>
  Claim C7. In the viewer selector the distance between the center of the query camera and
  the center of a candidate is clipped from below at \<open>10\<^sup>-\<^sup>1\<^sup>0\<close> before it is inverted: every
  similarity is a finite positive number, at most \<open>10\<^sup>1\<^sup>0\<close>, for every pose; a query center
  that coincides with a candidate center gives that candidate the similarity \<open>10\<^sup>1\<^sup>0\<close>,
  where the unclipped inverse of the ranking builder is infinite.
\<close>

theorem viewer_sims_finite:
  "length (viewer_sims centers_source center_target) = length centers_source
   \<and> (\<forall>s\<in>set (viewer_sims centers_source center_target). \<exists>r. s = Finite r \<and> 0 < r \<and> r \<le> 10 ^ 10)
   \<and> viewer_sims [c] c = [Finite (10 ^ 10)]
   \<and> inv_dist (vnorm (vsub c c)) = PosInf"
proof (intro conjI ballI)
  show "length (viewer_sims centers_source center_target) = length centers_source"
    by (simp add: viewer_sims_def)
  show "\<exists>r. s = Finite r \<and> 0 < r \<and> r \<le> 10 ^ 10"
    if "s \<in> set (viewer_sims centers_source center_target)" for s
  proof -
    from that obtain c where "s = inv_dist (max (vnorm (vsub c center_target)) (1 / 10 ^ 10))"
      by (auto simp: viewer_sims_def)
    then show ?thesis using clipped_inverse[OF vnorm_nonneg] by simp
  qed
  show "viewer_sims [c] c = [Finite (10 ^ 10)]"
    by (simp add: viewer_sims_def vnorm_vsub_self inv_dist_def)
  show "inv_dist (vnorm (vsub c c)) = PosInf"
    by (simp add: vnorm_vsub_self inv_dist_def)
qed

theorem viewer_sims_finite_witness:
  "viewer_sims [[0, 0, 0], [1, 0, 0]] [0, 0, 0] = [Finite (10 ^ 10), Finite 1]
   \<and> Finite 1 \<in> set (viewer_sims [[0, 0, 0], [1, 0, 0]] [0, 0, 0])
   \<and> (\<exists>r. Finite 1 = Finite r \<and> 0 < r \<and> r \<le> 10 ^ 10)
   \<and> (\<exists>r. Finite (10 ^ 10) = Finite r \<and> 0 < r \<and> r \<le> 10 ^ 10)"
proof -
  have e: "viewer_sims [[0, 0, 0], [1, 0, 0]] [0, 0, 0] = [Finite (10 ^ 10), Finite 1]"
    by (simp add: viewer_sims_def vsub_def vnorm_def inv_dist_def)
  show ?thesis
    using viewer_sims_finite[of "[[0, 0, 0], [1, 0, 0]]" "[0, 0, 0]" "[0]"] unfolding e by simp
qed

subsection \<open>Facts about the bounds\<close>

lemma below_map2_max:
  "length a = length b \<Longrightarrow> list_all2 (\<le>) (map2 max a b) p \<longleftrightarrow> list_all2 (\<le>) a p \<and> list_all2 (\<le>) b (p::real list)"
  by (auto simp: list_all2_conv_all_nth)

lemma above_map2_min:
  "length a = length b \<Longrightarrow> list_all2 (\<le>) p (map2 min a b) \<longleftrightarrow> list_all2 (\<le>) p a \<and> list_all2 (\<le>) (p::real list) b"
  by (auto simp: list_all2_conv_all_nth)

text \<open>
  Claim C8. In the viewer path the bounds of the batch are the elementwise intersection of
  the box that the dataset holds for the latent index and the box of the call: the lower
  corner is the elementwise maximum of the two lower corners, the upper corner the
  elementwise minimum of the two upper corners. A point lies in the resulting box exactly
  when it lies in both boxes.
\<close>

theorem viewer_bounds_intersection:
  assumes "length ds_bounds = 2" and "length bounds = 2"
    and "length (ds_bounds ! 0) = length (bounds ! 0)"
    and "length (ds_bounds ! 1) = length (bounds ! 1)"
  shows "viewer_bounds ds_bounds bounds =
           Inr [map2 max (ds_bounds ! 0) (bounds ! 0), map2 min (ds_bounds ! 1) (bounds ! 1)]
         \<and> (\<forall>p. in_box p [map2 max (ds_bounds ! 0) (bounds ! 0), map2 min (ds_bounds ! 1) (bounds ! 1)]
                  \<longleftrightarrow> in_box p ds_bounds \<and> in_box p bounds)"
proof
  obtain lo hi where ds: "ds_bounds = [lo, hi]"
    using assms(1) by (metis (no_types) One_nat_def Suc_1 length_0_conv length_Suc_conv)
  show "viewer_bounds ds_bounds bounds =
           Inr [map2 max (ds_bounds ! 0) (bounds ! 0), map2 min (ds_bounds ! 1) (bounds ! 1)]"
    using assms(2) by (simp add: ds viewer_bounds_def torch_maximum_def torch_minimum_def)
  show "\<forall>p. in_box p [map2 max (ds_bounds ! 0) (bounds ! 0), map2 min (ds_bounds ! 1) (bounds ! 1)]
                  \<longleftrightarrow> in_box p ds_bounds \<and> in_box p bounds"
    using assms(3,4) by (auto simp: in_box_def below_map2_max above_map2_min)
qed

theorem viewer_bounds_intersection_witness:
  "viewer_bounds [[-5, -5, -5], [5, 5, 5]] [[-1, -6, 0], [6, 2, 3]] = Inr [[-1, -5, 0], [5, 2, 3]]
   \<and> (in_box [0, 0, 1] [[-1, -5, 0], [5, 2, 3]]
        \<longleftrightarrow> in_box [0, 0, 1] [[-5, -5, -5], [5, 5, 5]] \<and> in_box [0, 0, 1] [[-1, -6, 0], [6, 2, 3]])"
  using viewer_bounds_intersection[of "[[-5, -5, -5], [5, 5, 5]]" "[[-1, -6, 0], [6, 2, 3]]"]
  by simp

subsection \<open>Facts about slices and samples\<close>

lemma py_slice_nonneg:
  assumes "0 \<le> a" and "0 \<le> b"
  shows "py_slice a b xs = take (nat b - nat a) (drop (nat a) xs)"
proof (cases "nat a < length xs")
  case True
  show ?thesis
  proof (cases "nat b \<le> length xs")
    case True
    with assms \<open>nat a < length xs\<close> show ?thesis
      by (simp add: py_slice_def slice_bound_def Let_def min_def)
  next
    case False
    with assms \<open>nat a < length xs\<close> show ?thesis
      by (simp add: py_slice_def slice_bound_def Let_def min_def)
  qed
next
  case False
  with assms show ?thesis
    by (simp add: py_slice_def slice_bound_def Let_def min_def)
qed


subsection \<open>Facts about the constructor\<close>

lemma index_axis_wrap_single:
  "index_axis xs (wrap_single inds) =
     (if list_all (\<lambda>i. i < length xs) inds then Inr (map (\<lambda>i. xs ! i) inds) else Inl IndexError)"
  by (simp add: index_axis_def wrap_single_def)

lemma load_source_params_Inr:
  assumes "load_source_params b c = Inr (inds, cs)"
  shows "cs = map (\<lambda>i. (if cfg_closest_using_t c then transpose (w2c_centers b) else w2c_centers b) ! i) inds"
    and "list_all (\<lambda>i. i < length (if cfg_closest_using_t c then transpose (w2c_centers b) else w2c_centers b)) inds"
  using assms
  by (auto simp: load_source_params_def Let_def index_axis_wrap_single split: sum.splits if_splits)

lemma load_source_params_length:
  "load_source_params b c = Inr (inds, cs) \<Longrightarrow> length cs = length inds"
  using load_source_params_Inr(1)[of b c inds cs] by simp

lemma load_source_indices_length:
  assumes "load_source_indices lib ct cs = Inr (sims, inds)"
  shows "length inds = length ct" and "t < length inds \<Longrightarrow> length (inds ! t) = n_latent ct cs"
  using assms by (auto simp: load_source_indices_def Let_def split: if_splits)

lemma init_Inr:
  assumes "init lib b c = Inr ds"
  shows "\<exists>inds cs sims ranks.
           load_source_params b c = Inr (inds, cs)
           \<and> load_source_indices lib (if cfg_closest_using_t c then transpose (c2w_centers b) else c2w_centers b) cs
                = Inr (sims, ranks)
           \<and> ds = \<lparr> closest_using_t = cfg_closest_using_t c,
                    src_view_sample = cfg_src_view_sample c,
                    src_view_inds = inds,
                    src_centers = cs,
                    src_sims = sims,
                    src_inds = ranks,
                    n_srcs_list =
                      (if length (cfg_n_srcs_list c) \<noteq> 1 \<or> cfg_n_srcs_list c ! 0 \<noteq> 0
                       then cfg_n_srcs_list c else [int (n_views b)]),
                    n_srcs_prob = cfg_n_srcs_prob c,
                    extra_src_pool = cfg_extra_src_pool c,
                    append_gt_prob = cfg_append_gt_prob c,
                    use_object_prior = cfg_use_object_prior c,
                    objects_bounds = cfg_objects_bounds c,
                    supply_decoded = cfg_supply_decoded c,
                    barebone = cfg_barebone c \<rparr>"
proof (cases "load_source_params b c")
  case (Inl e)
  with assms show ?thesis by (simp add: init_def split: if_splits)
next
  case (Inr pr)
  obtain inds cs where pr: "pr = (inds, cs)" by (cases pr)
  let ?tar = "if cfg_closest_using_t c then transpose (c2w_centers b) else c2w_centers b"
  show ?thesis
  proof (cases "load_source_indices lib ?tar cs")
    case (Inl e)
    with assms Inr pr show ?thesis by (simp add: init_def Let_def split: if_splits)
  next
    case r: (Inr sr)
    obtain sims ranks where sr: "sr = (sims, ranks)" by (cases sr)
    from assms Inr pr r sr show ?thesis
      by (auto simp: init_def Let_def split: if_splits)
  qed
qed

lemma init_fields:
  assumes "init lib b c = Inr ds"
  shows "extra_src_pool ds = cfg_extra_src_pool c"
    and "append_gt_prob ds = cfg_append_gt_prob c"
    and "n_srcs_prob ds = cfg_n_srcs_prob c"
    and "barebone ds = cfg_barebone c"
    and "closest_using_t ds = cfg_closest_using_t c"
    and "n_srcs_list ds = (if length (cfg_n_srcs_list c) \<noteq> 1 \<or> cfg_n_srcs_list c ! 0 \<noteq> 0
                           then cfg_n_srcs_list c else [int (n_views b)])"
    and "load_source_params b c = Inr (src_view_inds ds, src_centers ds)"
    and "load_source_indices lib (if cfg_closest_using_t c then transpose (c2w_centers b) else c2w_centers b)
           (src_centers ds) = Inr (src_sims ds, src_inds ds)"
proof -
  from init_Inr[OF assms] obtain inds cs sims ranks where
    lp: "load_source_params b c = Inr (inds, cs)"
    and ld: "load_source_indices lib (if cfg_closest_using_t c then transpose (c2w_centers b) else c2w_centers b) cs
                = Inr (sims, ranks)"
    and ds: "ds = \<lparr> closest_using_t = cfg_closest_using_t c,
                    src_view_sample = cfg_src_view_sample c,
                    src_view_inds = inds,
                    src_centers = cs,
                    src_sims = sims,
                    src_inds = ranks,
                    n_srcs_list =
                      (if length (cfg_n_srcs_list c) \<noteq> 1 \<or> cfg_n_srcs_list c ! 0 \<noteq> 0
                       then cfg_n_srcs_list c else [int (n_views b)]),
                    n_srcs_prob = cfg_n_srcs_prob c,
                    extra_src_pool = cfg_extra_src_pool c,
                    append_gt_prob = cfg_append_gt_prob c,
                    use_object_prior = cfg_use_object_prior c,
                    objects_bounds = cfg_objects_bounds c,
                    supply_decoded = cfg_supply_decoded c,
                    barebone = cfg_barebone c \<rparr>"
    by blast
  show "extra_src_pool ds = cfg_extra_src_pool c" by (simp add: ds)
  show "append_gt_prob ds = cfg_append_gt_prob c" by (simp add: ds)
  show "n_srcs_prob ds = cfg_n_srcs_prob c" by (simp add: ds)
  show "barebone ds = cfg_barebone c" by (simp add: ds)
  show "closest_using_t ds = cfg_closest_using_t c" by (simp add: ds)
  show "n_srcs_list ds = (if length (cfg_n_srcs_list c) \<noteq> 1 \<or> cfg_n_srcs_list c ! 0 \<noteq> 0
                           then cfg_n_srcs_list c else [int (n_views b)])" by (simp add: ds)
  show "load_source_params b c = Inr (src_view_inds ds, src_centers ds)" using lp by (simp add: ds)
  show "load_source_indices lib (if cfg_closest_using_t c then transpose (c2w_centers b) else c2w_centers b)
           (src_centers ds) = Inr (src_sims ds, src_inds ds)" using ld by (simp add: ds)
qed

lemma init_ranking:
  assumes "init lib b c = Inr ds" and "t < length (src_inds ds)" and "l < length (src_inds ds ! t)"
  shows "distinct (src_inds ds ! t ! l)"
    and "set (src_inds ds ! t ! l) = {0..<length (src_view_inds ds)}"
    and "length (src_inds ds ! t ! l) = length (src_view_inds ds)"
proof -
  let ?tar = "if cfg_closest_using_t c then transpose (c2w_centers b) else c2w_centers b"
  have ld: "load_source_indices lib ?tar (src_centers ds) = Inr (src_sims ds, src_inds ds)"
    and lp: "load_source_params b c = Inr (src_view_inds ds, src_centers ds)"
    using init_fields[OF assms(1)] by simp_all
  have S: "length (src_centers ds) = length (src_view_inds ds)"
    using load_source_params_length[OF lp] .
  have t: "t < length ?tar" using load_source_indices_length(1)[OF ld] assms(2) by simp
  have l: "l < n_latent ?tar (src_centers ds)"
    using load_source_indices_length(2)[OF ld assms(2)] assms(3) by simp
  have n: "src_inds ds ! t ! l = snd (torch_sort_desc lib (sims_column ?tar (src_centers ds) t l))"
    using load_source_indices_nth(2)[OF ld t l] .
  show "distinct (src_inds ds ! t ! l)" unfolding n by (rule distinct_torch_sort_desc)
  show "set (src_inds ds ! t ! l) = {0..<length (src_view_inds ds)}"
    unfolding n by (simp add: set_torch_sort_desc length_sims_column S)
  show "length (src_inds ds ! t ! l) = length (src_view_inds ds)"
    unfolding n by (simp add: length_torch_sort_desc length_sims_column S)
qed

text \<open>
  Claim C9. When \<^verbatim>\<open>src_view_sample\<close> selects exactly one candidate, \<^verbatim>\<open>load_source_params\<close>
  indexes the camera tensors with the list \<^verbatim>\<open>[view_inds]\<close> that holds the one-element tensor,
  a sequence of length one and not a scalar. The cameras it stores keep the candidate axis,
  of size 1, above the latent axis of the selected camera, and every ranking that the
  constructor builds from them is \<open>[0]\<close>.
\<close>

theorem single_candidate_keeps_axis:
  "(load_source_params b c = Inr (inds, cs) \<longrightarrow> length inds = 1 \<longrightarrow>
      wrap_single inds = List_index inds
      \<and> index_axis (if cfg_closest_using_t c then transpose (w2c_centers b) else w2c_centers b)
            (List_index inds) = Inr cs
      \<and> length cs = 1
      \<and> cs ! 0 = (if cfg_closest_using_t c then transpose (w2c_centers b) else w2c_centers b) ! (inds ! 0))
   \<and> (init lib b c = Inr ds \<longrightarrow> length (src_view_inds ds) = 1 \<longrightarrow>
        length (src_centers ds) = 1
        \<and> (t < length (src_inds ds) \<longrightarrow> l < length (src_inds ds ! t) \<longrightarrow> src_inds ds ! t ! l = [0]))"
proof (intro conjI impI)
  let ?cams = "if cfg_closest_using_t c then transpose (w2c_centers b) else w2c_centers b"
  assume lp: "load_source_params b c = Inr (inds, cs)" and one: "length inds = 1"
  show w: "wrap_single inds = List_index inds" using one by (simp add: wrap_single_def)
  have cs: "cs = map (\<lambda>i. ?cams ! i) inds" and rng: "list_all (\<lambda>i. i < length ?cams) inds"
    using load_source_params_Inr[OF lp] by simp_all
  have "index_axis ?cams (wrap_single inds) = Inr cs"
    using cs rng by (simp only: index_axis_wrap_single if_True)
  then show "index_axis ?cams (List_index inds) = Inr cs" by (simp only: w)
  show "length cs = 1" using cs one by simp
  show "cs ! 0 = ?cams ! (inds ! 0)" using cs one by simp
next
  assume i: "init lib b c = Inr ds" and one: "length (src_view_inds ds) = 1"
  show "length (src_centers ds) = 1"
    using load_source_params_length[OF init_fields(7)[OF i]] one by simp
next
  assume i: "init lib b c = Inr ds" and one: "length (src_view_inds ds) = 1"
    and t: "t < length (src_inds ds)" and l: "l < length (src_inds ds ! t)"
  have "set (src_inds ds ! t ! l) = {0}" and "length (src_inds ds ! t ! l) = 1"
    using init_ranking(2,3)[OF i t l] one by simp_all
  then show "src_inds ds ! t ! l = [0]"
    by (cases "src_inds ds ! t ! l") auto
qed

theorem single_candidate_keeps_axis_witness:
  "load_source_params example_base
       ((example_config [2] [1] 0 0)\<lparr>cfg_src_view_sample := [Some 2, Some 3, Some 1]\<rparr>)
     = Inr ([2], [[[1, 0, 0]]])
   \<and> wrap_single [2] = List_index [2]
   \<and> length [[[1, 0, 0 :: real]]] = 1
   \<and> [[[1, 0, 0 :: real]]] ! 0 = w2c_centers example_base ! 2"
proof -
  let ?c = "(example_config [2] [1] 0 0)\<lparr>cfg_src_view_sample := [Some 2, Some 3, Some 1]\<rparr>"
  have lp: "load_source_params example_base ?c = Inr ([2], [[[1, 0, 0]]])"
    by (simp add: example_base_def example_config_def load_source_params_def py_slice3_def
        slice_bound_def Let_def upt_conv_Cons example_views_def index_axis_wrap_single)
  have cut: "\<not> cfg_closest_using_t ?c" by (simp add: example_config_def)
  show ?thesis
    using single_candidate_keeps_axis[where b = example_base and c = ?c and inds = "[2]"
        and cs = "[[[1, 0, 0]]]"] lp cut
    by simp
qed

lemma remove_gt_cases: "remove_gt_of u p = 0 \<or> remove_gt_of u p = 1"
  by (simp add: remove_gt_of_def)

lemma src_pool_take_drop:
  assumes "0 \<le> n" and "0 \<le> extra_src_pool ds"
  shows "src_pool ds t l n u =
           take (nat (n + extra_src_pool ds))
             (drop (nat (remove_gt_of u (append_gt_prob ds))) (src_inds ds ! t ! l))"
proof -
  let ?rg = "remove_gt_of u (append_gt_prob ds)"
  have rg: "0 \<le> ?rg" using remove_gt_cases[of u "append_gt_prob ds"] by auto
  have "nat (?rg + n + extra_src_pool ds) - nat ?rg = nat (n + extra_src_pool ds)"
    using rg assms by simp
  then show ?thesis
    using py_slice_nonneg[of ?rg "?rg + n + extra_src_pool ds" "src_inds ds ! t ! l"] rg assms
    by (simp add: src_pool_def Let_def)
qed

subsection \<open>Facts about the example dataset\<close>

lemma example_params:
  "load_source_params example_base (example_config counts probs pool p) =
     Inr ([1, 2, 3, 4, 5], example_sources)"
  by (simp add: example_base_def example_config_def load_source_params_def py_slice3_def
      slice_bound_def Let_def upt_conv_Cons example_views_def example_sources_def
      index_axis_wrap_single)

lemma example_init_ok:
  "init index_order example_base (example_config counts probs pool p) =
     Inr (constructed index_order example_base (example_config counts probs pool p))"
proof -
  have "shapes_agree example_views example_sources"
    by (simp add: shapes_agree_def n_latent_def example_views_def example_sources_def)
  then obtain sims ranks where "load_source_indices index_order example_views example_sources = Inr (sims, ranks)"
    by (simp add: load_source_indices_def Let_def)
  then have "\<exists>ds. init index_order example_base (example_config counts probs pool p) = Inr ds"
    by (simp add: init_def example_params)
      (simp add: example_base_def example_config_def default_sample_def)
  then show ?thesis by (auto simp: constructed_def)
qed

lemma example_fields:
  "src_view_inds (constructed index_order example_base (example_config counts probs pool p)) = [1, 2, 3, 4, 5]"
  "src_centers (constructed index_order example_base (example_config counts probs pool p)) = example_sources"
  "extra_src_pool (constructed index_order example_base (example_config counts probs pool p)) = pool"
  "append_gt_prob (constructed index_order example_base (example_config counts probs pool p)) = p"
  "n_srcs_prob (constructed index_order example_base (example_config counts probs pool p)) = probs"
  "barebone (constructed index_order example_base (example_config counts probs pool p)) = False"
  "closest_using_t (constructed index_order example_base (example_config counts probs pool p)) = False"
  "n_srcs_list (constructed index_order example_base (example_config counts probs pool p)) =
     (if length counts \<noteq> 1 \<or> counts ! 0 \<noteq> 0 then counts else [6])"
proof -
  let ?c = "example_config counts probs pool p"
  let ?ds = "constructed index_order example_base ?c"
  note f = init_fields[OF example_init_ok, of counts probs pool p]
  have "Inr (src_view_inds ?ds, src_centers ?ds) = Inr ([1, 2, 3, 4, 5], example_sources)"
    using f(7) example_params[of counts probs pool p] by simp
  then show "src_view_inds ?ds = [1, 2, 3, 4, 5]" and "src_centers ?ds = example_sources"
    by simp_all
  show "extra_src_pool ?ds = pool" unfolding f(1) by (simp add: example_config_def)
  show "append_gt_prob ?ds = p" unfolding f(2) by (simp add: example_config_def)
  show "n_srcs_prob ?ds = probs" unfolding f(3) by (simp add: example_config_def)
  show "barebone ?ds = False" unfolding f(4) by (simp add: example_config_def)
  show "closest_using_t ?ds = False" unfolding f(5) by (simp add: example_config_def)
  show "n_srcs_list ?ds = (if length counts \<noteq> 1 \<or> counts ! 0 \<noteq> 0 then counts else [6])"
    unfolding f(6) by (simp add: example_config_def example_base_def)
qed

lemma example_sims_column:
  "sims_column example_views example_sources 0 0 =
     [Finite 2, Finite 2, Finite (2 / 3), Finite (2 / 9), Finite (2 / 19)]"
  by (simp add: sims_column_def example_views_def example_sources_def vsub_def vnorm_axis
      inv_dist_def upt_conv_Cons)

lemma example_src_inds:
  "length (src_inds (constructed index_order example_base (example_config counts probs pool p))) = 6"
  "length (src_inds (constructed index_order example_base (example_config counts probs pool p)) ! 0) = 1"
  "src_inds (constructed index_order example_base (example_config counts probs pool p)) ! 0 ! 0 = [0, 1, 2, 3, 4]"
proof -
  let ?ds = "constructed index_order example_base (example_config counts probs pool p)"
  have "cfg_closest_using_t (example_config counts probs pool p) = False"
    and "c2w_centers example_base = example_views"
    by (simp_all add: example_config_def example_base_def)
  then have ld: "load_source_indices index_order example_views example_sources = Inr (src_sims ?ds, src_inds ?ds)"
    using init_fields(8)[OF example_init_ok, of counts probs pool p]
    by (simp only: example_fields(2) if_False)
  have nl: "n_latent example_views example_sources = 1"
    by (simp add: n_latent_def example_views_def)
  show len: "length (src_inds ?ds) = 6"
    using load_source_indices_length(1)[OF ld] by (simp add: example_views_def)
  show "length (src_inds ?ds ! 0) = 1"
    using load_source_indices_length(2)[OF ld, of 0] len nl by simp
  have "src_inds ?ds ! 0 ! 0 =
          snd (torch_sort_desc index_order (sims_column example_views example_sources 0 0))"
    by (rule load_source_indices_nth(2)[OF ld]) (simp_all add: nl, simp add: example_views_def)
  also have "\<dots> = [0, 1, 2, 3, 4]"
    by (simp add: example_sims_column torch_sort_desc_example)
  finally show "src_inds ?ds ! 0 ! 0 = [0, 1, 2, 3, 4]" .
qed

subsection \<open>Facts about the training-time selector\<close>

lemma select_src_inds_in_range:
  assumes "t < length (src_inds ds)" and "l < length (src_inds ds ! t)"
  shows "select_src_inds ds t l n u picks =
           (if extra_src_pool ds \<noteq> 0 then random_sample picks (src_pool ds t l n u) n
            else Inr (src_pool ds t l n u))"
  using assms by (simp add: select_src_inds_def Let_def)



text \<open>A request for no source at all, with a pool to sample from: the empty sample is not
  an index, and line 197 raises.\<close>

lemma get_metadata_empty_sample:
  assumes "draw_n_srcs ds pre u_choice = Inr 0" and "extra_src_pool ds \<noteq> 0"
    and "(if closest_using_t ds then latent_index else view_index) < length (src_inds ds)"
    and "(if closest_using_t ds then view_index else latent_index)
           < length (src_inds ds ! (if closest_using_t ds then latent_index else view_index))"
  shows "get_metadata ds view_index latent_index pre u_choice u [] = Inl IndexError"
  using assms
  by (simp add: get_metadata_def Let_def select_src_inds_def random_sample_def)


lemma example_pool:
  "src_pool (constructed index_order example_base (example_config counts probs pool p)) 0 0 n u =
     py_slice (remove_gt_of u p) (remove_gt_of u p + n + pool) [0, 1, 2, 3, 4]"
  by (simp add: src_pool_def Let_def example_fields example_src_inds)

lemma example_select:
  "select_src_inds (constructed index_order example_base (example_config counts probs pool p)) 0 0 n u picks =
     (if pool \<noteq> 0
      then random_sample picks (py_slice (remove_gt_of u p) (remove_gt_of u p + n + pool) [0, 1, 2, 3, 4]) n
      else Inr (py_slice (remove_gt_of u p) (remove_gt_of u p + n + pool) [0, 1, 2, 3, 4]))"
  by (simp add: select_src_inds_def Let_def example_pool example_fields example_src_inds)



text \<open>
  Claim C3, amended. When \<open>extra_src_pool = 0\<close>, \<open>append_gt_prob = 0\<close> and the variate of
  \<^verbatim>\<open>random.random()\<close> is not \<open>0.0\<close>, the selector does not depend on the generator and returns
  the top \<open>n\<close> ranked candidates after the top-ranked entry, in rank order; on the ranking
  \<open>[0,1,2,3,4]\<close> of the example, \<open>n = 2\<close> yields 1 then 2. (At the variate \<open>0.0\<close> the test
  \<^verbatim>\<open>random.random() > 0\<close> fails and the top-ranked entry is kept.)
\<close>

theorem select_src_inds_top_after_skip:
  "(extra_src_pool ds = 0 \<longrightarrow> append_gt_prob ds = 0 \<longrightarrow> 0 < u \<longrightarrow> 0 \<le> n \<longrightarrow>
      t < length (src_inds ds) \<longrightarrow> l < length (src_inds ds ! t) \<longrightarrow>
        select_src_inds ds t l n u picks = Inr (take (nat n) (drop 1 (src_inds ds ! t ! l))))
   \<and> select_src_inds (constructed index_order example_base (example_config [2] [1] 0 0)) 0 0 2 (1 / 2) picks
       = Inr [1, 2]"
proof (intro conjI impI)
  assume a: "extra_src_pool ds = 0" "append_gt_prob ds = 0" "0 < u" "0 \<le> n"
    "t < length (src_inds ds)" "l < length (src_inds ds ! t)"
  have rg: "remove_gt_of u (append_gt_prob ds) = 1" using a(2,3) by (simp add: remove_gt_of_def)
  have "src_pool ds t l n u = take (nat n) (drop 1 (src_inds ds ! t ! l))"
    using src_pool_take_drop[of n ds t l u] a(1,4) rg by simp
  then show "select_src_inds ds t l n u picks = Inr (take (nat n) (drop 1 (src_inds ds ! t ! l)))"
    using a(1) by (simp add: select_src_inds_in_range[OF a(5,6)])
next
  show "select_src_inds (constructed index_order example_base (example_config [2] [1] 0 0)) 0 0 2 (1 / 2) picks
       = Inr [1, 2]"
    by (simp add: example_select remove_gt_of_def py_slice_def slice_bound_def)
qed

theorem select_src_inds_top_after_skip_witness:
  "extra_src_pool (constructed index_order example_base (example_config [2] [1] 0 0)) = 0
   \<and> append_gt_prob (constructed index_order example_base (example_config [2] [1] 0 0)) = 0
   \<and> select_src_inds (constructed index_order example_base (example_config [2] [1] 0 0)) 0 0 2 (1 / 2) [4, 4]
       = Inr (take 2 (drop 1 [0, 1, 2, 3, 4]))"
  using select_src_inds_top_after_skip[of "constructed index_order example_base (example_config [2] [1] 0 0)"
      "1 / 2" 2 0 0 "[4, 4]"]
  by (simp add: example_fields example_src_inds)

theorem select_src_inds_zero_variate_counterexample:
  "extra_src_pool (constructed index_order example_base (example_config [2] [1] 0 0)) = 0
   \<and> append_gt_prob (constructed index_order example_base (example_config [2] [1] 0 0)) = 0
   \<and> select_src_inds (constructed index_order example_base (example_config [2] [1] 0 0)) 0 0 2 0 [] = Inr [0, 1]
   \<and> select_src_inds (constructed index_order example_base (example_config [2] [1] 0 0)) 0 0 2 (1 / 2) [] = Inr [1, 2]"
  by (simp add: example_select example_fields remove_gt_of_def py_slice_def slice_bound_def)

subsection \<open>Facts about construction and the size of the pool\<close>







lemma bisect_empty_range: "bisect a x lo lo = lo"
  by (subst bisect.simps) simp

lemma random_choices_single:
  "random_choices u [v] ws = (if length ws = 1 \<and> 0 < ws ! 0 then Inr v else Inl ValueError)"
proof (cases ws)
  case Nil
  then show ?thesis by (simp add: random_choices_def)
next
  case (Cons w ws')
  show ?thesis
  proof (cases ws')
    case Nil
    with Cons show ?thesis by (simp add: random_choices_def Let_def bisect_empty_range)
  next
    case (Cons w' ws'')
    with \<open>ws = w # ws'\<close> show ?thesis by (simp add: random_choices_def Let_def)
  qed
qed


subsection \<open>Facts about the stored list of counts\<close>

lemma singleton_zero_iff: "(length xs = 1 \<and> xs ! 0 = (0::int)) \<longleftrightarrow> xs = [0]"
  by (cases xs) auto

text \<open>
  Claim C10, amended. If the argument \<^verbatim>\<open>n_srcs_list\<close> of the constructor is exactly \<open>[0]\<close>, the
  dataset stores \<open>[n_views]\<close> in its place; every other list, other one-element lists
  included, is stored unchanged. A query that draws its count from the stored list
  \<open>[n_views]\<close> draws \<open>n_views\<close> provided \<^verbatim>\<open>n_srcs_prob\<close> holds one positive weight; with any
  other \<^verbatim>\<open>n_srcs_prob\<close>, the default of three weights included, the draw raises
  \<^verbatim>\<open>ValueError\<close>. The viewer takes the last entry of the list, which is \<open>n_views\<close>.
\<close>

theorem init_n_srcs_list:
  assumes "init lib b c = Inr ds"
  shows "(cfg_n_srcs_list c = [0] \<longrightarrow>
            n_srcs_list ds = [int (n_views b)]
            \<and> last (n_srcs_list ds) = int (n_views b)
            \<and> draw_n_srcs ds None u =
                (if length (cfg_n_srcs_prob c) = 1 \<and> 0 < cfg_n_srcs_prob c ! 0
                 then Inr (int (n_views b)) else Inl ValueError))
         \<and> (cfg_n_srcs_list c \<noteq> [0] \<longrightarrow> n_srcs_list ds = cfg_n_srcs_list c)"
proof -
  have l: "n_srcs_list ds = (if cfg_n_srcs_list c = [0] then [int (n_views b)] else cfg_n_srcs_list c)"
    using init_fields(6)[OF assms] singleton_zero_iff[of "cfg_n_srcs_list c"] by auto
  have p: "n_srcs_prob ds = cfg_n_srcs_prob c" using init_fields(3)[OF assms] .
  show ?thesis by (simp add: l p draw_n_srcs_def random_choices_single)
qed

theorem init_n_srcs_list_witness:
  "init index_order example_base (example_config [0] [1] 0 0) = Inr (constructed index_order example_base (example_config [0] [1] 0 0))
   \<and> n_srcs_list (constructed index_order example_base (example_config [0] [1] 0 0)) = [6]
   \<and> draw_n_srcs (constructed index_order example_base (example_config [0] [1] 0 0)) None (1 / 2) = Inr 6
   \<and> init index_order example_base (example_config [3] [1] 0 0) = Inr (constructed index_order example_base (example_config [3] [1] 0 0))
   \<and> n_srcs_list (constructed index_order example_base (example_config [3] [1] 0 0)) = [3]"
proof -
  have a: "cfg_n_srcs_list (example_config [0] [1] 0 0) = [0]"
    "cfg_n_srcs_prob (example_config [0] [1] 0 0) = [1]"
    "cfg_n_srcs_list (example_config [3] [1] 0 0) = [3]" "n_views example_base = 6"
    by (simp_all add: example_config_def example_base_def)
  show ?thesis
    using init_n_srcs_list[OF example_init_ok, of "[0]" "[1]" 0 0 "1 / 2"]
      init_n_srcs_list[OF example_init_ok, of "[3]" "[1]" 0 0 "1 / 2"]
    by (simp add: a example_init_ok example_fields)
qed

theorem default_weights_draw_counterexample:
  "init index_order example_base (example_config [0] [1 / 5, 3 / 5, 1 / 5] 1 (1 / 10)) =
     Inr (constructed index_order example_base (example_config [0] [1 / 5, 3 / 5, 1 / 5] 1 (1 / 10)))
   \<and> n_srcs_list (constructed index_order example_base (example_config [0] [1 / 5, 3 / 5, 1 / 5] 1 (1 / 10))) = [6]
   \<and> get_metadata (constructed index_order example_base (example_config [0] [1 / 5, 3 / 5, 1 / 5] 1 (1 / 10))) 0 0 None
        (1 / 2) (1 / 2) [0, 1, 2, 3] = Inl ValueError"
  by (simp add: example_init_ok example_fields get_metadata_def draw_n_srcs_def
      random_choices_single)

subsection \<open>Facts about the viewer's selection\<close>








end
